theory Spec2Isabelle
  imports Complex_Main
begin

section \<open>The arithmetic the timer is written in\<close>

subsection \<open>Binary64 values\<close>

text \<open>
  The C++ type \<^verbatim>\<open>double\<close> is taken to be IEEE 754 binary64 with the default rounding
  (to nearest, ties to even). A finite value is a sign, a significand \<open>m\<close> and an exponent
  \<open>e\<close>, and stands for \<open>\<plusminus> m * 2 ^ e\<close>; the results of the operations below have
  \<open>m < 2 ^ 53\<close> and \<open>- 1074 \<le> e \<le> 971\<close>. The sign is \<open>True\<close> for a negative value, so
  both zeros are there. A NaN keeps its sign bit, because the C library prints it.
\<close>

datatype double = Finite bool nat int | Inf bool | NaN bool

definition sval :: "bool \<Rightarrow> nat \<Rightarrow> int" where
  "sval s m = (if s then - int m else int m)"

text \<open>
  The comparison of two finite values brings both significands to the smaller of the two
  exponents. The operators \<^verbatim>\<open><\<close> and \<^verbatim>\<open><=\<close> of C++ are false as soon as one side is a
  NaN, and the two zeros compare equal.
\<close>

text \<open>The rational number that a finite value stands for.\<close>

definition valof :: "bool \<Rightarrow> nat \<Rightarrow> int \<Rightarrow> rat" where
  "valof s m e = of_int (sval s m) * 2 powi e"

definition scaled :: "bool \<Rightarrow> nat \<Rightarrow> int \<Rightarrow> int \<Rightarrow> int" where
  "scaled s m e e0 = sval s m * 2 ^ nat (e - e0)"

fun dlt :: "double \<Rightarrow> double \<Rightarrow> bool" where
  "dlt (NaN _) _ = False"
| "dlt _ (NaN _) = False"
| "dlt (Inf s) (Inf t) = (s \<and> \<not> t)"
| "dlt (Inf s) (Finite _ _ _) = s"
| "dlt (Finite _ _ _) (Inf t) = (\<not> t)"
| "dlt (Finite s m e) (Finite t n f) =
     (scaled s m e (min e f) < scaled t n f (min e f))"

fun dle :: "double \<Rightarrow> double \<Rightarrow> bool" where
  "dle (NaN _) _ = False"
| "dle _ (NaN _) = False"
| "dle (Inf s) (Inf t) = (if t then s else True)"
| "dle (Inf s) (Finite _ _ _) = s"
| "dle (Finite _ _ _) (Inf t) = (\<not> t)"
| "dle (Finite s m e) (Finite t n f) =
     (scaled s m e (min e f) \<le> scaled t n f (min e f))"

text \<open>The operator \<^verbatim>\<open>==\<close>: the same number, whatever the representation.\<close>

definition deq :: "double \<Rightarrow> double \<Rightarrow> bool" where
  "deq x y = (dle x y \<and> dle y x)"

subsection \<open>Rounding to nearest, ties to even\<close>

text \<open>\<open>round_half_even a b\<close> is the integer nearest to \<open>a / b\<close>, the even one on a tie.\<close>

definition round_half_even :: "nat \<Rightarrow> nat \<Rightarrow> nat" where
  "round_half_even a b =
     (let q = a div b; r = a mod b
      in if 2 * r < b then q
         else if b < 2 * r then q + 1
         else if even q then q else q + 1)"

text \<open>The number of digits of \<open>n\<close> in base \<open>b\<close> (\<open>0\<close> has none).\<close>

fun ndigits :: "nat \<Rightarrow> nat \<Rightarrow> nat" where
  "ndigits b n = (if n = 0 \<or> b < 2 then 0 else Suc (ndigits b (n div b)))"

declare ndigits.simps [simp del]

text \<open>
  \<open>ilog b a c\<close> is the integer part of the logarithm of \<open>a / c\<close> in base \<open>b\<close>, for
  \<open>a\<close> and \<open>c\<close> positive: the difference of the digit counts is either that number or
  one more.
\<close>

definition ilog :: "nat \<Rightarrow> nat \<Rightarrow> nat \<Rightarrow> int" where
  "ilog b a c =
     (let k = int (ndigits b a) - int (ndigits b c)
      in if (if 0 \<le> k then c * b ^ nat k \<le> a else c \<le> a * b ^ nat (- k))
         then k else k - 1)"

text \<open>
  \<open>round_quot s a c\<close> is the binary64 value nearest to \<open>\<plusminus> a / c\<close> (\<open>c\<close> positive): a zero
  of that sign when \<open>a = 0\<close>, a significand of 53 bits where the exponent allows it and a
  subnormal number below, an infinity when the rounded value is beyond the largest
  finite one.
\<close>

definition round_quot :: "bool \<Rightarrow> nat \<Rightarrow> nat \<Rightarrow> double" where
  "round_quot s a c =
     (if a = 0 then Finite s 0 0
      else
        let e = max (ilog 2 a c - 52) (- 1074);
            m = (if 0 \<le> e then round_half_even a (c * 2 ^ nat e)
                 else round_half_even (a * 2 ^ nat (- e)) c);
            m' = (if m = 2 ^ 53 then 2 ^ 52 else m);
            e' = (if m = 2 ^ 53 then e + 1 else e)
        in if 971 < e' then Inf s else Finite s m' e')"

text \<open>A finite value \<open>m * 2 ^ e\<close> as a quotient of two naturals.\<close>

definition numer :: "nat \<Rightarrow> int \<Rightarrow> nat" where
  "numer m e = (if 0 \<le> e then m * 2 ^ nat e else m)"

definition denom :: "int \<Rightarrow> nat" where
  "denom e = (if 0 \<le> e then 1 else 2 ^ nat (- e))"

subsection \<open>Multiplication, division, conversions\<close>

text \<open>
  The product and the quotient are the exact ones, rounded. An operation without a value
  (\<open>0 * \<infinity>\<close>, \<open>0 / 0\<close>, \<open>\<infinity> / \<infinity>\<close>) gives the default NaN, whose sign bit is set on x86-64; a
  NaN operand is handed on.
\<close>

fun dmul :: "double \<Rightarrow> double \<Rightarrow> double" where
  "dmul (NaN s) _ = NaN s"
| "dmul _ (NaN t) = NaN t"
| "dmul (Inf s) (Inf t) = Inf (s \<noteq> t)"
| "dmul (Inf s) (Finite t n f) = (if n = 0 then NaN True else Inf (s \<noteq> t))"
| "dmul (Finite s m e) (Inf t) = (if m = 0 then NaN True else Inf (s \<noteq> t))"
| "dmul (Finite s m e) (Finite t n f) =
     round_quot (s \<noteq> t) (numer (m * n) (e + f)) (denom (e + f))"

fun ddiv :: "double \<Rightarrow> double \<Rightarrow> double" where
  "ddiv (NaN s) _ = NaN s"
| "ddiv _ (NaN t) = NaN t"
| "ddiv (Inf s) (Inf t) = NaN True"
| "ddiv (Inf s) (Finite t n f) = Inf (s \<noteq> t)"
| "ddiv (Finite s m e) (Inf t) = Finite (s \<noteq> t) 0 0"
| "ddiv (Finite s m e) (Finite t n f) =
     (if n = 0 then (if m = 0 then NaN True else Inf (s \<noteq> t))
      else round_quot (s \<noteq> t) (numer m e * denom f) (denom e * numer n f))"

text \<open>The conversion of a \<^verbatim>\<open>size_t\<close> or of a non-negative integer literal.\<close>

definition double_of_nat :: "nat \<Rightarrow> double" where
  "double_of_nat n = round_quot False n 1"

text \<open>The conversion of a signed integer (a tick count).\<close>

definition double_of_int :: "int \<Rightarrow> double" where
  "double_of_int i = round_quot (i < 0) (nat \<bar>i\<bar>) 1"

subsection \<open>The literals of the source\<close>

text \<open>
  \<^verbatim>\<open>.000001\<close> and \<^verbatim>\<open>.001\<close> are the binary64 values nearest to the decimal fractions;
  \<^verbatim>\<open>1\<close>, \<^verbatim>\<open>1000\<close>, \<^verbatim>\<open>1000000\<close> and \<^verbatim>\<open>1000000000\<close> are integer literals, converted
  exactly. \<open>lit_0\<close> is the zero that the properties compare a duration with.
\<close>

definition lit_0 :: double where
  "lit_0 = double_of_nat 0"

definition lit_000001 :: double where
  "lit_000001 = round_quot False 1 1000000"

definition lit_001 :: double where
  "lit_001 = round_quot False 1 1000"

definition lit_1 :: double where
  "lit_1 = double_of_nat 1"

definition lit_1000 :: double where
  "lit_1000 = double_of_nat 1000"

definition lit_1000000 :: double where
  "lit_1000000 = double_of_nat 1000000"

definition lit_1000000000 :: double where
  "lit_1000000000 = double_of_nat 1000000000"

section \<open>The C library calls\<close>

subsection \<open>Decimal digits\<close>

definition digit_char :: "nat \<Rightarrow> char" where
  "digit_char n = ''0123456789'' ! (n mod 10)"

text \<open>\<^verbatim>\<open>std::to_string\<close> of a \<^verbatim>\<open>size_t\<close>: the decimal digits, without padding.\<close>

fun to_string_nat :: "nat \<Rightarrow> string" where
  "to_string_nat n =
     (if n < 10 then [digit_char n]
      else to_string_nat (n div 10) @ [digit_char (n mod 10)])"

declare to_string_nat.simps [simp del]

subsection \<open>The conversion \<^verbatim>\<open>%.5g\<close>\<close>

text \<open>
  \<open>sig5 a c\<close> rounds the positive quotient \<open>a / c\<close> to five significant decimal digits:
  it returns the five digits as a number from \<open>10000\<close> to \<open>99999\<close> and the decimal
  exponent \<open>X\<close> of the first one, so that the rounded value is \<open>digits * 10 ^ (X - 4)\<close>.
  This is the exponent the \<^verbatim>\<open>e\<close> style would print. The rounding is the exact one of
  glibc, ties to even.
\<close>

definition sig5 :: "nat \<Rightarrow> nat \<Rightarrow> nat \<times> int" where
  "sig5 a c =
     (let x = ilog 10 a c;
          d = (if 4 \<le> x then round_half_even a (c * 10 ^ nat (x - 4))
               else round_half_even (a * 10 ^ nat (4 - x)) c)
      in if d = 100000 then (10000, x + 1) else (d, x))"

definition digits5 :: "nat \<Rightarrow> string" where
  "digits5 d = [digit_char (d div 10000), digit_char (d div 1000), digit_char (d div 100),
                digit_char (d div 10), digit_char d]"

text \<open>Without the \<^verbatim>\<open>#\<close> flag, \<^verbatim>\<open>%g\<close> drops the zeros that end the fraction, and the point
  when no fraction is left.\<close>

definition strip_zeros :: "string \<Rightarrow> string" where
  "strip_zeros fr = rev (dropWhile (\<lambda>c. c = CHR ''0'') (rev fr))"

definition with_fraction :: "string \<Rightarrow> string \<Rightarrow> string" where
  "with_fraction ip fr =
     (if strip_zeros fr = [] then ip else ip @ ''.'' @ strip_zeros fr)"

text \<open>The exponent of the \<^verbatim>\<open>e\<close> style: a sign and at least two digits.\<close>

definition exp_part :: "int \<Rightarrow> string" where
  "exp_part x =
     ''e'' @ (if x < 0 then ''-'' else ''+'') @
     (if \<bar>x\<bar> < 10 then ''0'' else []) @ to_string_nat (nat \<bar>x\<bar>)"

text \<open>
  With precision \<open>P = 5\<close> and \<open>X\<close> the exponent of the \<^verbatim>\<open>e\<close> style, \<^verbatim>\<open>%g\<close> takes the
  \<^verbatim>\<open>f\<close> style with \<open>P - 1 - X\<close> decimals when \<open>- 4 \<le> X < P\<close>, and the \<^verbatim>\<open>e\<close> style with
  \<open>P - 1\<close> decimals otherwise.
\<close>

definition g5_digits :: "nat \<Rightarrow> int \<Rightarrow> string" where
  "g5_digits d x =
     (if - 4 \<le> x \<and> x < 5 then
        (if 0 \<le> x then with_fraction (take (nat x + 1) (digits5 d)) (drop (nat x + 1) (digits5 d))
         else with_fraction ''0'' (replicate (nat (- x - 1)) (CHR ''0'') @ digits5 d))
      else with_fraction (take 1 (digits5 d)) (drop 1 (digits5 d)) @ exp_part x)"

definition sign_str :: "bool \<Rightarrow> string" where
  "sign_str s = (if s then ''-'' else [])"

fun format_g5 :: "double \<Rightarrow> string" where
  "format_g5 (NaN s) = sign_str s @ ''nan''"
| "format_g5 (Inf s) = sign_str s @ ''inf''"
| "format_g5 (Finite s m e) =
     sign_str s @
     (if m = 0 then ''0''
      else case sig5 (numer m e) (denom e) of (d, x) \<Rightarrow> g5_digits d x)"

text \<open>
  \<^verbatim>\<open>std::snprintf(buffer, 50, "%.5g", x)\<close> leaves in the buffer at most 49 characters of
  the conversion, and the terminating zero.
\<close>

definition snprintf_g5 :: "nat \<Rightarrow> double \<Rightarrow> string" where
  "snprintf_g5 bufsz x = take (bufsz - 1) (format_g5 x)"

section \<open>The timer\<close>

subsection \<open>The two print functions\<close>

definition Simple :: "string \<Rightarrow> string \<Rightarrow> string" where
  "Simple title time = title @ '': '' @ time"

definition Big :: "string \<Rightarrow> string \<Rightarrow> string" where
  "Big title time =
     ''-----------------------------------------'' @ [CHR 0x0A] @
     ''| '' @ title @ '' | Time = '' @ time @ [CHR 0x0A] @
     ''-----------------------------------------''"

subsection \<open>The time string of a number of seconds\<close>

text \<open>
  \<^verbatim>\<open>
  std::string make_time_str(double time) const {
      auto print_it = [](double x, std::string unit){
          char buffer[50];
          std::snprintf(buffer, 50, "%.5g", x);
          return buffer + std::string(" ") + unit;
      };
      if(time < .000001)
          return print_it(time*1000000000, "ns");
      else if(time < .001)
          return print_it(time*1000000, "us");
      else if(time < 1)
          return print_it(time*1000, "ms");
      else
          return print_it(time, "s");
  }
  \<close>
\<close>

definition print_it :: "double \<Rightarrow> string \<Rightarrow> string" where
  "print_it x unit = snprintf_g5 50 x @ '' '' @ unit"

definition make_time_str :: "double \<Rightarrow> string" where
  "make_time_str time =
     (if dlt time lit_000001 then print_it (dmul time lit_1000000000) ''ns''
      else if dlt time lit_001 then print_it (dmul time lit_1000000) ''us''
      else if dlt time lit_1 then print_it (dmul time lit_1000) ''ms''
      else print_it time ''s'')"

subsection \<open>The timer object and its surroundings\<close>

text \<open>
  The fields \<^verbatim>\<open>title_\<close>, \<^verbatim>\<open>time_print_\<close> and \<^verbatim>\<open>start_\<close> of the class are \<open>title'\<close>,
  \<open>time_print'\<close> and \<open>start'\<close> here. A \<^verbatim>\<open>time_point\<close> is a number of ticks of the clock. The state of the program outside the
  timer, the clock included, is a value of a type \<open>'w\<close> that the model leaves open.
  \<open>clock_now\<close> is \<^verbatim>\<open>clock::now()\<close>: it reads the clock in a state and gives the state
  after the reading. \<open>duration_count\<close> is the conversion of a difference of time points
  to \<^verbatim>\<open>std::chrono::duration<double>\<close> followed by \<^verbatim>\<open>count()\<close>, a number of seconds;
  the period of the clock, which the implementation chooses, is inside it.
\<close>

type_synonym time_point = int

record 'w chrono =
  clock_now :: "'w \<Rightarrow> time_point \<times> 'w"
  duration_count :: "int \<Rightarrow> double"

record timer =
  title' :: string
  time_print' :: "string \<Rightarrow> string \<Rightarrow> string"
  start' :: time_point

text \<open>
  A call of the operation \<^verbatim>\<open>f\<close> changes the state and either returns or throws. The
  operation does not hold the timer.
\<close>

datatype 'w outcome = Returns 'w | Throws 'w

definition Timer :: "'w chrono \<Rightarrow> string \<Rightarrow> (string \<Rightarrow> string \<Rightarrow> string) \<Rightarrow> 'w \<Rightarrow> timer \<times> 'w" where
  "Timer C title time_print w =
     (case clock_now C w of
        (t0, w') \<Rightarrow> (\<lparr>title' = title, time_print' = time_print, start' = t0\<rparr>, w'))"

subsection \<open>Timing an operation\<close>

text \<open>
  \<^verbatim>\<open>
  inline std::string time_it(std::function<void()> f, double target_time=1) {
      time_point start = start_;
      double total_time;
      start_ = clock::now();
      size_t n = 0;
      do {
          f();
          std::chrono::duration<double> elapsed = clock::now() - start_;
          total_time = elapsed.count();
      } while (n++ < 100 && total_time < target_time);
      std::string out = make_time_str(total_time/n) + " for " + std::to_string(n) + " tries";
      start_ = start;
      return out;
  }
  \<close>
  The \<^verbatim>\<open>do\<close> loop of \<^verbatim>\<open>time_it\<close>, entered with the value of \<^verbatim>\<open>n\<close> and the state. Each
  round calls \<^verbatim>\<open>f\<close>, reads the clock and tests \<^verbatim>\<open>n++ < 100 && total_time < target_time\<close>:
  the test compares the old \<^verbatim>\<open>n\<close> and the increment is done whatever the outcome. The
  last argument is not a variable of the program: it counts the calls of \<^verbatim>\<open>f\<close>. A loop
  that ends gives \<^verbatim>\<open>n\<close>, \<^verbatim>\<open>total_time\<close>, the state and the count; an exception of
  \<^verbatim>\<open>f\<close> leaves the loop at once.
\<close>

datatype 'w loop_exit = Loop_done nat double 'w nat | Loop_thrown 'w nat

function time_it_loop ::
  "'w chrono \<Rightarrow> ('w \<Rightarrow> 'w outcome) \<Rightarrow> double \<Rightarrow> time_point \<Rightarrow> nat \<Rightarrow> 'w \<Rightarrow> nat \<Rightarrow> 'w loop_exit"
where
  "time_it_loop C f target_time st n w calls =
     (case f w of
        Throws w1 \<Rightarrow> Loop_thrown w1 (calls + 1)
      | Returns w1 \<Rightarrow>
          (case clock_now C w1 of
             (stop, w2) \<Rightarrow>
               (let total_time = duration_count C (stop - st)
                in if n < 100 \<and> dlt total_time target_time
                   then time_it_loop C f target_time st (n + 1) w2 (calls + 1)
                   else Loop_done (n + 1) total_time w2 (calls + 1))))"
  by pat_completeness auto
termination
  by (relation "measure (\<lambda>(C, f, target_time, st, n, w, calls). 100 - n)") auto

declare time_it_loop.simps [simp del]

text \<open>
  What a call of \<^verbatim>\<open>time_it\<close> leaves: the string it returns (none when an exception of
  \<^verbatim>\<open>f\<close> goes through it), the timer, the state, and the number of calls of \<^verbatim>\<open>f\<close>.
\<close>

record 'w timed =
  result :: "string option"
  self :: timer
  world :: 'w
  invocations :: nat

definition time_it :: "'w chrono \<Rightarrow> timer \<Rightarrow> ('w \<Rightarrow> 'w outcome) \<Rightarrow> double \<Rightarrow> 'w \<Rightarrow> 'w timed" where
  "time_it C t f target_time w =
     (let start = start' t
      in case clock_now C w of
           (t0, w0) \<Rightarrow>
             (let t1 = t\<lparr>start' := t0\<rparr>
              in case time_it_loop C f target_time (start' t1) 0 w0 0 of
                   Loop_thrown w' k \<Rightarrow>
                     \<lparr>result = None, self = t1, world = w', invocations = k\<rparr>
                 | Loop_done n total_time w' k \<Rightarrow>
                     (let out = make_time_str (ddiv total_time (double_of_nat n))
                                  @ '' for '' @ to_string_nat n @ '' tries''
                      in \<lparr>result = Some out, self = t1\<lparr>start' := start\<rparr>, world = w',
                          invocations = k\<rparr>)))"

subsection \<open>The time since the start\<close>

text \<open>
  \<^verbatim>\<open>make_time_str()\<close> without argument reads the clock and prints the time since
  \<^verbatim>\<open>start_\<close>; \<^verbatim>\<open>to_string()\<close> is \<^verbatim>\<open>time_print_(title_, make_time_str())\<close>.
\<close>

definition make_time_str_now :: "'w chrono \<Rightarrow> timer \<Rightarrow> 'w \<Rightarrow> string \<times> 'w" where
  "make_time_str_now C t w =
     (case clock_now C w of
        (stop, w') \<Rightarrow> (make_time_str (duration_count C (stop - start' t)), w'))"

definition to_string :: "'w chrono \<Rightarrow> timer \<Rightarrow> 'w \<Rightarrow> string \<times> 'w" where
  "to_string C t w =
     (case make_time_str_now C t w of
        (time, w') \<Rightarrow> (time_print' t (title' t) time, w'))"

text \<open>
  The operator \<^verbatim>\<open><<\<close> on a stream and a timer hands the string to the operator \<^verbatim>\<open><<\<close>
  of the stream for strings, here \<open>put\<close>.
\<close>

definition shift_out ::
  "('os \<Rightarrow> string \<Rightarrow> 'os) \<Rightarrow> 'w chrono \<Rightarrow> 'os \<Rightarrow> timer \<Rightarrow> 'w \<Rightarrow> 'os \<times> 'w" where
  "shift_out put C os t w =
     (case to_string C t w of (s, w') \<Rightarrow> (put os s, w'))"

subsection \<open>The member functions as calls on an object\<close>

text \<open>
  \<^verbatim>\<open>time_it\<close> is the only member function that is not \<^verbatim>\<open>const\<close>. The others, and the
  operator \<^verbatim>\<open><<\<close>, which takes the timer by \<^verbatim>\<open>const\<close> reference, are functions of the
  timer that give no timer back. \<open>call\<close> puts them side by side: a member function, the
  timer and the state before, and what is returned, the timer and the state after.
\<close>

datatype ('w, 'os) member =
    Time_it "'w \<Rightarrow> 'w outcome" double
  | Make_time_str_now
  | Make_time_str double
  | To_string
  | Shift_out "'os \<Rightarrow> string \<Rightarrow> 'os" 'os

datatype 'os returned = A_string string | A_stream 'os | An_exception

fun call :: "'w chrono \<Rightarrow> ('w, 'os) member \<Rightarrow> timer \<Rightarrow> 'w \<Rightarrow> 'os returned \<times> timer \<times> 'w" where
  "call C (Time_it f target_time) t w =
     (let r = time_it C t f target_time w
      in (case result r of None \<Rightarrow> An_exception | Some out \<Rightarrow> A_string out, self r, world r))"
| "call C Make_time_str_now t w =
     (case make_time_str_now C t w of (s, w') \<Rightarrow> (A_string s, t, w'))"
| "call C (Make_time_str time) t w = (A_string (make_time_str time), t, w)"
| "call C To_string t w =
     (case to_string C t w of (s, w') \<Rightarrow> (A_string s, t, w'))"
| "call C (Shift_out put os) t w =
     (case shift_out put C os t w of (os', w') \<Rightarrow> (A_stream os', t, w'))"

subsection \<open>A clock to run the timer on\<close>

text \<open>
  For the examples: the state of the program is the time, in ticks of one nanosecond, and
  a reading of the clock takes none. An operation moves the time by what it costs;
  \<open>takes k\<close> costs \<open>k\<close> ticks and returns.
\<close>

definition ns_clock :: "int chrono" where
  "ns_clock =
     \<lparr>clock_now = (\<lambda>w. (w, w)),
      duration_count = (\<lambda>d. ddiv (double_of_int d) lit_1000000000)\<rparr>"

definition takes :: "int \<Rightarrow> int \<Rightarrow> int outcome" where
  "takes k w = Returns (w + k)"

definition example_timer :: timer where
  "example_timer = \<lparr>title' = ''X'', time_print' = Simple, start' = 0\<rparr>"

text \<open>A stream that keeps the characters written to it, with no padding.\<close>

definition put_chars :: "string \<Rightarrow> string \<Rightarrow> string" where
  "put_chars os s = os @ s"

section \<open>Properties\<close>

subsection \<open>The order of binary64 values\<close>

lemma scaled_rescale:
  assumes "e00 \<le> e0" "e0 \<le> e"
  shows "scaled s m e e00 = scaled s m e e0 * 2 ^ nat (e0 - e00)"
proof -
  have "nat (e - e00) = nat (e - e0) + nat (e0 - e00)" using assms by simp
  then show ?thesis by (simp add: scaled_def power_add)
qed

lemma scaled_less_rescale:
  assumes "e00 \<le> e0" "e0 \<le> e" "e0 \<le> f"
  shows "(scaled s m e e0 < scaled t n f e0) = (scaled s m e e00 < scaled t n f e00)"
  using assms by (simp add: scaled_rescale [of e00 e0])

lemma dle_not_dlt: "dle a b \<Longrightarrow> \<not> dlt b a"
  by (cases a; cases b) (auto simp: min.commute)

lemma dlt_trans: "dlt a b \<Longrightarrow> dlt b c \<Longrightarrow> dlt a c"
proof (cases a; cases b; cases c)
  fix s m e t n f u k g
  assume a: "a = Finite s m e" and b: "b = Finite t n f" and c: "c = Finite u k g"
  assume ab: "dlt a b" and bc: "dlt b c"
  let ?z = "min e (min f g)"
  have r1: "(scaled s m e (min e f) < scaled t n f (min e f)) = (scaled s m e ?z < scaled t n f ?z)"
    by (rule scaled_less_rescale) auto
  have r2: "(scaled t n f (min f g) < scaled u k g (min f g)) = (scaled t n f ?z < scaled u k g ?z)"
    by (rule scaled_less_rescale) auto
  have r3: "(scaled s m e (min e g) < scaled u k g (min e g)) = (scaled s m e ?z < scaled u k g ?z)"
    by (rule scaled_less_rescale) auto
  have "scaled s m e ?z < scaled t n f ?z" using ab a b r1 by simp
  moreover have "scaled t n f ?z < scaled u k g ?z" using bc b c r2 by simp
  ultimately have "scaled s m e ?z < scaled u k g ?z" by (rule less_trans)
  then show "dlt a c" using a c r3 by simp
qed auto

text \<open>The comparisons of finite values are those of the numbers they stand for.\<close>

lemma scaled_valof:
  assumes "z \<le> e"
  shows "of_int (scaled s m e z) * 2 powi z = valof s m e"
proof -
  have "(2::rat) ^ nat (e - z) = 2 powi (e - z)"
    using assms by (simp add: power_int_def)
  moreover have "(2::rat) powi (e - z) * 2 powi z = 2 powi e"
    by (simp flip: power_int_add)
  ultimately show ?thesis
    by (simp add: scaled_def valof_def mult.assoc)
qed

lemma dlt_valof: "dlt (Finite s m e) (Finite t n f) = (valof s m e < valof t n f)"
proof -
  let ?z = "min e f"
  have p: "(0::rat) < 2 powi ?z" by simp
  have "(scaled s m e ?z < scaled t n f ?z) =
        ((of_int (scaled s m e ?z) :: rat) * 2 powi ?z < of_int (scaled t n f ?z) * 2 powi ?z)"
    using p by (simp only: mult_less_cancel_right_pos of_int_less_iff)
  then show ?thesis by (simp add: scaled_valof)
qed

lemma dle_valof: "dle (Finite s m e) (Finite t n f) = (valof s m e \<le> valof t n f)"
proof -
  let ?z = "min e f"
  have p: "(0::rat) < 2 powi ?z" by simp
  have "(scaled s m e ?z \<le> scaled t n f ?z) =
        ((of_int (scaled s m e ?z) :: rat) * 2 powi ?z \<le> of_int (scaled t n f ?z) * 2 powi ?z)"
    using p by (simp only: mult_le_cancel_right_pos of_int_le_iff)
  then show ?thesis by (simp add: scaled_valof)
qed

subsection \<open>Evaluation\<close>

lemma ndigits_0 [simp]: "ndigits b 0 = 0"
  by (simp add: ndigits.simps)

lemma ndigits_Suc_0 [simp]: "ndigits b (Suc 0) = (if b < 2 then 0 else 1)"
  by (simp add: ndigits.simps [of b "Suc 0"])

lemma ndigits_numeral [simp]:
  "ndigits b (numeral k) = (if b < 2 then 0 else Suc (ndigits b (numeral k div b)))"
  by (simp add: ndigits.simps [of b "numeral k"])

lemma to_string_nat_0 [simp]: "to_string_nat 0 = [digit_char 0]"
  by (simp add: to_string_nat.simps)

lemma to_string_nat_Suc_0 [simp]: "to_string_nat (Suc 0) = [digit_char 1]"
  by (simp add: to_string_nat.simps)

lemma to_string_nat_numeral [simp]:
  "to_string_nat (numeral k) =
     (if numeral k < (10::nat) then [digit_char (numeral k)]
      else to_string_nat (numeral k div 10) @ [digit_char (numeral k mod 10)])"
  by (simp add: to_string_nat.simps [of "numeral k"])

lemmas round_eval = round_quot_def ilog_def round_half_even_def Let_def double_of_nat_def
  double_of_int_def numer_def denom_def

lemmas order_eval = scaled_def sval_def

lemmas format_eval = print_it_def snprintf_g5_def sig5_def g5_digits_def digits5_def
  digit_char_def with_fraction_def strip_zeros_def exp_part_def sign_str_def

lemma lit_0_eq: "lit_0 = Finite False 0 0"
  by (simp add: lit_0_def round_eval)

lemma lit_000001_eq: "lit_000001 = Finite False 4722366482869645 (- 72)"
  by (simp add: lit_000001_def round_eval)

lemma lit_001_eq: "lit_001 = Finite False 4611686018427388 (- 62)"
  by (simp add: lit_001_def round_eval)

lemma lit_1_eq: "lit_1 = Finite False 4503599627370496 (- 52)"
  by (simp add: lit_1_def round_eval)

lemma lit_1000_eq: "lit_1000 = Finite False 8796093022208000 (- 43)"
  by (simp add: lit_1000_def round_eval)

lemma lit_1000000_eq: "lit_1000000 = Finite False 8589934592000000 (- 33)"
  by (simp add: lit_1000000_def round_eval)

lemma lit_1000000000_eq: "lit_1000000000 = Finite False 8388608000000000 (- 23)"
  by (simp add: lit_1000000000_def round_eval)

lemmas lit_eval = lit_0_eq lit_000001_eq lit_001_eq lit_1_eq lit_1000_eq lit_1000000_eq
  lit_1000000000_eq

lemma lit_order: "dlt lit_000001 lit_001" "dlt lit_001 lit_1"
  by (simp_all add: lit_eval order_eval)

lemma not_below_000001:
  assumes "dle lit_001 d \<or> dle lit_1 d" shows "\<not> dlt d lit_000001"
proof
  assume l: "dlt d lit_000001"
  then have l3: "dlt d lit_001" using lit_order(1) by (rule dlt_trans)
  then have l1: "dlt d lit_1" using lit_order(2) by (rule dlt_trans)
  from assms l3 l1 show False by (auto dest: dle_not_dlt)
qed

lemma not_below_001:
  assumes "dle lit_1 d" shows "\<not> dlt d lit_001"
proof
  assume "dlt d lit_001"
  then have "dlt d lit_1" using lit_order(2) by (rule dlt_trans)
  with assms show False by (auto dest: dle_not_dlt)
qed

subsection \<open>What the rounding computes\<close>

text \<open>
  \<open>round_half_even\<close> is within a half of the quotient, and even on a tie; \<open>ilog\<close> is the
  integer part of the logarithm; a finite result of \<open>round_quot\<close> has a significand and an
  exponent of binary64 and is within half a unit in the last place of the quotient;
  \<open>sig5\<close> gives five digits, within half a unit of the fifth.
\<close>

lemma round_half_even_nearest:
  assumes "0 < b"
  shows "\<bar>2 * int (round_half_even a b) * int b - 2 * int a\<bar> \<le> int b"
proof -
  define q r where "q = a div b" and "r = a mod b"
  have a: "a = q * b + r" by (simp add: q_def r_def)
  have r: "r < b" using assms by (simp add: r_def)
  have "int a = int q * int b + int r" using a by (metis of_nat_add of_nat_mult)
  then show ?thesis
    unfolding round_half_even_def Let_def q_def [symmetric] r_def [symmetric]
    using r by (auto simp add: algebra_simps)
qed

lemma round_half_even_tie: "2 * (a mod b) = b \<Longrightarrow> even (round_half_even a b)"
  by (simp add: round_half_even_def Let_def)

lemma round_half_even_rat:
  assumes "0 < b"
  shows "\<bar>of_nat (round_half_even a b) - (of_nat a / of_nat b :: rat)\<bar> \<le> 1 / 2"
proof -
  define R where "R = round_half_even a b"
  have "\<bar>2 * int R * int b - 2 * int a\<bar> \<le> int b"
    unfolding R_def using assms by (rule round_half_even_nearest)
  then have "(of_int \<bar>2 * int R * int b - 2 * int a\<bar> :: rat) \<le> of_int (int b)"
    by (simp only: of_int_le_iff)
  then have "\<bar>2 * of_nat R * of_nat b - 2 * (of_nat a :: rat)\<bar> \<le> of_nat b"
    by simp
  moreover have "2 * of_nat R * of_nat b - 2 * (of_nat a :: rat)
      = (2 * of_nat b) * (of_nat R - of_nat a / of_nat b)"
    using assms by (simp add: field_simps)
  ultimately have "(2 * of_nat b) * \<bar>of_nat R - (of_nat a / of_nat b :: rat)\<bar> \<le> of_nat b"
    by (simp add: abs_mult)
  then show ?thesis using assms by (simp add: R_def field_simps)
qed

lemma ndigits_upper: "2 \<le> b \<Longrightarrow> n < b ^ ndigits b n"
proof (induction b n rule: ndigits.induct)
  case (1 b n)
  show ?case
  proof (cases "n = 0")
    case True
    then show ?thesis by simp
  next
    case False
    with "1.prems" have c: "\<not> (n = 0 \<or> b < 2)" by simp
    from "1.IH" [OF c "1.prems"] have "n div b + 1 \<le> b ^ ndigits b (n div b)" by simp
    then have "b * (n div b + 1) \<le> b * b ^ ndigits b (n div b)" by (rule mult_le_mono2)
    moreover have "n < b * (n div b + 1)"
      using "1.prems" by (metis Suc_eq_plus1 dividend_less_times_div mult.commute add.commute
          mult_Suc_right zero_less_numeral order_less_le_trans)
    ultimately show ?thesis using c by (simp add: ndigits.simps [of b n])
  qed
qed

lemma ndigits_lower: "2 \<le> b \<Longrightarrow> 0 < n \<Longrightarrow> b ^ ndigits b n \<le> b * n"
proof (induction b n rule: ndigits.induct)
  case (1 b n)
  from "1.prems" have c: "\<not> (n = 0 \<or> b < 2)" by simp
  have "b ^ ndigits b (n div b) \<le> n"
  proof (cases "n div b = 0")
    case True
    with "1.prems" show ?thesis by simp
  next
    case False
    with "1.IH" [OF c "1.prems"(1)] have "b ^ ndigits b (n div b) \<le> b * (n div b)" by simp
    also have "\<dots> \<le> n" by simp
    finally show ?thesis .
  qed
  then show ?case using c by (simp add: ndigits.simps [of b n])
qed

lemma ilog_floor:
  assumes b: "2 \<le> b" and a: "0 < a" and c: "0 < c"
  shows "of_nat b powi ilog b a c \<le> (of_nat a / of_nat c :: rat) \<and>
         (of_nat a / of_nat c :: rat) < of_nat b powi (ilog b a c + 1)"
proof -
  define B A C :: rat where "B = of_nat b" and "A = of_nat a" and "C = of_nat c"
  define na nc where "na = ndigits b a" and "nc = ndigits b c"
  define k where "k = int na - int nc"
  have B: "0 < B" and A: "0 < A" and C: "0 < C" using assms by (simp_all add: B_def A_def C_def)
  have B0: "B \<noteq> 0" using B by simp
  have "of_nat a < (of_nat (b ^ na) :: rat)"
    unfolding na_def using ndigits_upper [OF b, of a] by (simp only: of_nat_less_iff)
  then have a_up: "A < B ^ na" by (simp add: A_def B_def)
  have "(of_nat (b ^ nc) :: rat) \<le> of_nat (b * c)"
    unfolding nc_def using ndigits_lower [OF b c] by (simp only: of_nat_le_iff)
  then have c_lo: "B ^ nc \<le> B * C" by (simp add: C_def B_def)
  have "(of_nat (b ^ na) :: rat) \<le> of_nat (b * a)"
    unfolding na_def using ndigits_lower [OF b a] by (simp only: of_nat_le_iff)
  then have a_lo: "B ^ na \<le> B * A" by (simp add: A_def B_def)
  have "of_nat c < (of_nat (b ^ nc) :: rat)"
    unfolding nc_def using ndigits_upper [OF b, of c] by (simp only: of_nat_less_iff)
  then have c_up: "C < B ^ nc" by (simp add: C_def B_def)
  have pk1: "B powi (k + 1) = B ^ na * B / B ^ nc"
    using B0 by (simp add: k_def power_int_add power_int_diff)
  have pk0: "B powi (k - 1) = B ^ na / (B * B ^ nc)"
    using B0 by (simp add: k_def power_int_diff)
  have up: "A / C < B powi (k + 1)"
  proof -
    have "A * B ^ nc < B ^ na * (B * C)"
      using a_up c_lo A B C by (intro mult_less_le_imp_less) simp_all
    then have "A / C < B ^ na * B / B ^ nc" using B C by (simp add: field_simps)
    then show ?thesis by (simp only: pk1)
  qed
  have lo: "B powi (k - 1) < A / C"
  proof -
    have "B ^ na * C < (B * A) * B ^ nc"
      using a_lo c_up A B C by (intro mult_le_less_imp_less) simp_all
    then have "B ^ na / (B * B ^ nc) < A / C" using B C by (simp add: field_simps)
    then show ?thesis by (simp only: pk0)
  qed
  have cond: "(if 0 \<le> k then c * b ^ nat k \<le> a else c \<le> a * b ^ nat (- k)) = (B powi k \<le> A / C)"
  proof (cases "0 \<le> k")
    case True
    have "(c * b ^ nat k \<le> a) = ((of_nat (c * b ^ nat k) :: rat) \<le> of_nat a)"
      by (simp only: of_nat_le_iff)
    also have "\<dots> = (C * B ^ nat k \<le> A)" by (simp add: A_def B_def C_def)
    also have "\<dots> = (B powi k \<le> A / C)" using True C by (simp add: power_int_def field_simps)
    finally show ?thesis using True by simp
  next
    case False
    have "(c \<le> a * b ^ nat (- k)) = ((of_nat c :: rat) \<le> of_nat (a * b ^ nat (- k)))"
      by (simp only: of_nat_le_iff)
    also have "\<dots> = (C \<le> A * B ^ nat (- k))" by (simp add: A_def B_def C_def)
    also have "\<dots> = (B powi k \<le> A / C)" using False B C by (simp add: power_int_def field_simps)
    finally show ?thesis using False by simp
  qed
  have il: "ilog b a c = (if B powi k \<le> A / C then k else k - 1)"
    unfolding ilog_def Let_def na_def [symmetric] nc_def [symmetric] k_def [symmetric] cond ..
  show ?thesis
  proof (cases "B powi k \<le> A / C")
    case True
    with il up show ?thesis by (simp add: A_def B_def C_def)
  next
    case False
    with il lo show ?thesis by (simp add: A_def B_def C_def)
  qed
qed

lemma significand_near:
  assumes c: "0 < c" and b: "0 < b"
  shows "\<bar>of_nat (if 0 \<le> e then round_half_even a (c * b ^ nat e)
                     else round_half_even (a * b ^ nat (- e)) c)
           - (of_nat a / of_nat c :: rat) * of_nat b powi (- e)\<bar> \<le> 1 / 2"
proof (cases "0 \<le> e")
  case True
  have p: "(of_nat b :: rat) powi (- e) = 1 / of_nat b ^ nat e"
    using True by (cases "e = 0") (simp_all add: power_int_def field_simps)
  have eq: "(of_nat a / of_nat (c * b ^ nat e) :: rat) = of_nat a / of_nat c * of_nat b powi (- e)"
    unfolding p by simp
  from c b have "0 < c * b ^ nat e" by simp
  from round_half_even_rat [OF this, of a]
  have "\<bar>of_nat (round_half_even a (c * b ^ nat e))
          - (of_nat a / of_nat c :: rat) * of_nat b powi (- e)\<bar> \<le> 1 / 2"
    by (simp only: eq)
  with True show ?thesis by (simp only: if_True)
next
  case False
  have p: "(of_nat b :: rat) powi (- e) = of_nat b ^ nat (- e)"
    using False by (simp add: power_int_def)
  have eq: "(of_nat (a * b ^ nat (- e)) / of_nat c :: rat) = of_nat a / of_nat c * of_nat b powi (- e)"
    unfolding p by simp
  from round_half_even_rat [OF c, of "a * b ^ nat (- e)"]
  have "\<bar>of_nat (round_half_even (a * b ^ nat (- e)) c)
          - (of_nat a / of_nat c :: rat) * of_nat b powi (- e)\<bar> \<le> 1 / 2"
    by (simp only: eq)
  with False show ?thesis by (simp only: if_False)
qed

lemma round_quot_unfold:
  assumes "a \<noteq> 0" and "e = max (ilog 2 a c - 52) (- 1074)"
    and "m = (if 0 \<le> e then round_half_even a (c * 2 ^ nat e)
              else round_half_even (a * 2 ^ nat (- e)) c)"
  shows "round_quot s a c =
     (if 971 < (if m = 2 ^ 53 then e + 1 else e) then Inf s
      else Finite s (if m = 2 ^ 53 then 2 ^ 52 else m) (if m = 2 ^ 53 then e + 1 else e))"
  using assms by (simp add: round_quot_def Let_def)

lemma round_quot_nearest:
  assumes a: "0 < a" and c: "0 < c" and r: "round_quot s a c = Finite t m e"
  shows "t = s \<and> m < 2 ^ 53 \<and> - 1074 \<le> e \<and> e \<le> 971 \<and> (- 1074 < e \<longrightarrow> 2 ^ 52 \<le> m) \<and>
         \<bar>of_nat m * 2 powi e - (of_nat a / of_nat c :: rat)\<bar> \<le> 2 powi e / 2"
proof -
  define Q :: rat where "Q = of_nat a / of_nat c"
  define L where "L = ilog 2 a c"
  define e0 where "e0 = max (L - 52) (- 1074)"
  define m0 where "m0 = (if 0 \<le> e0 then round_half_even a (c * 2 ^ nat e0)
                         else round_half_even (a * 2 ^ nat (- e0)) c)"
  define S :: rat where "S = Q * 2 powi (- e0)"
  from a have a0: "a \<noteq> 0" by simp
  have e0: "e0 = max (ilog 2 a c - 52) (- 1074)" by (simp add: e0_def L_def)
  note u = round_quot_unfold [OF a0 e0 m0_def, of s]
  from ilog_floor [of 2 a c] a c
  have lo: "2 powi L \<le> Q" and up: "Q < 2 powi (L + 1)" by (simp_all add: L_def Q_def)
  have near: "\<bar>of_nat m0 - S\<bar> \<le> 1 / 2"
    unfolding m0_def S_def Q_def using significand_near [OF c, of 2 e0 a] by simp
  have p: "(0::rat) < 2 powi (- e0)" by simp
  have "S < 2 powi (L + 1) * 2 powi (- e0)"
    unfolding S_def using up p by (simp only: mult_less_cancel_right_pos)
  also have "\<dots> = 2 powi (L + 1 - e0)" by (simp flip: power_int_add)
  also have "\<dots> \<le> 2 powi 53" by (rule power_int_increasing) (simp_all add: e0_def)
  finally have S_up: "S < 2 ^ 53" by simp
  with near have "(of_nat m0 :: rat) < 2 ^ 53 + 1" by linarith
  then have "(of_nat m0 :: rat) < of_nat (2 ^ 53 + 1)" by simp
  then have "m0 < 2 ^ 53 + 1" by (simp only: of_nat_less_iff)
  then have m0_up: "m0 \<le> 2 ^ 53" by simp
  have m0_lo: "2 ^ 52 \<le> m0" if "- 1074 \<le> L - 52"
  proof -
    from that have "e0 = L - 52" by (simp add: e0_def)
    then have "(2::rat) powi 52 = 2 powi L * 2 powi (- e0)" by (simp flip: power_int_add)
    also have "\<dots> \<le> S" unfolding S_def using lo p by (simp only: mult_le_cancel_right_pos)
    finally have "(2::rat) ^ 52 \<le> S" by simp
    with near have "(2::rat) ^ 52 < of_nat m0 + 1" by linarith
    then have "(of_nat (2 ^ 52) :: rat) < of_nat (m0 + 1)" by simp
    then have "2 ^ 52 < m0 + 1" by (simp only: of_nat_less_iff)
    then show ?thesis by simp
  qed
  have err0: "\<bar>of_nat m0 * 2 powi e0 - Q\<bar> \<le> 2 powi e0 / 2"
  proof -
    have "of_nat m0 * 2 powi e0 - Q = 2 powi e0 * (of_nat m0 - S)"
      by (simp add: S_def algebra_simps flip: power_int_add)
    then have "\<bar>of_nat m0 * 2 powi e0 - Q\<bar> = 2 powi e0 * \<bar>of_nat m0 - S\<bar>"
      by (simp add: abs_mult)
    also have "\<dots> \<le> 2 powi e0 * (1 / 2)"
      using near by (intro mult_left_mono) simp_all
    finally show ?thesis by simp
  qed
  show ?thesis
  proof (cases "m0 = 2 ^ 53")
    case True
    with u r have t: "t = s" and m: "m = 2 ^ 52" and e: "e = e0 + 1" and f: "e0 + 1 \<le> 971"
      by (simp_all split: if_splits)
    have "(of_nat m :: rat) * 2 powi e = of_nat m0 * 2 powi e0"
      by (simp add: m e True power_int_add)
    moreover have "(2::rat) powi e0 / 2 \<le> 2 powi e / 2"
      by (simp add: e power_int_add)
    ultimately have "\<bar>of_nat m * 2 powi e - Q\<bar> \<le> 2 powi e / 2"
      using err0 by simp
    with t m e f show ?thesis by (simp add: Q_def e0_def)
  next
    case False
    with u r have t: "t = s" and m: "m = m0" and e: "e = e0" and f: "e0 \<le> 971"
      by (simp_all split: if_splits)
    have "- 1074 < e0 \<Longrightarrow> 2 ^ 52 \<le> m0"
      by (rule m0_lo) (simp add: e0_def split: if_splits)
    with t m e f False m0_up err0 show ?thesis by (simp add: Q_def e0_def)
  qed
qed

lemma sig5_nearest:
  assumes a: "0 < a" and c: "0 < c" and r: "sig5 a c = (d, x)"
  shows "10000 \<le> d \<and> d \<le> 99999 \<and>
         \<bar>of_nat d * 10 powi (x - 4) - (of_nat a / of_nat c :: rat)\<bar> \<le> 10 powi (x - 4) / 2"
proof -
  define Q :: rat where "Q = of_nat a / of_nat c"
  define L where "L = ilog 10 a c"
  define d0 where "d0 = (if 0 \<le> L - 4 then round_half_even a (c * 10 ^ nat (L - 4))
                         else round_half_even (a * 10 ^ nat (- (L - 4))) c)"
  define S :: rat where "S = Q * 10 powi (- (L - 4))"
  have d0': "d0 = (if 4 \<le> L then round_half_even a (c * 10 ^ nat (L - 4))
                   else round_half_even (a * 10 ^ nat (4 - L)) c)"
    by (simp add: d0_def)
  have u: "sig5 a c = (if d0 = 100000 then (10000, L + 1) else (d0, L))"
    by (simp add: sig5_def Let_def L_def [symmetric] d0' [symmetric])
  from ilog_floor [of 10 a c] a c
  have lo: "10 powi L \<le> Q" and up: "Q < 10 powi (L + 1)" by (simp_all add: L_def Q_def)
  have near: "\<bar>of_nat d0 - S\<bar> \<le> 1 / 2"
    unfolding d0_def S_def Q_def using significand_near [OF c, of 10 "L - 4" a] by simp
  have p: "(0::rat) < 10 powi (- (L - 4))" by simp
  have "S < 10 powi (L + 1) * 10 powi (- (L - 4))"
    unfolding S_def using up p by (simp only: mult_less_cancel_right_pos)
  also have "\<dots> = 10 powi 5" by (simp flip: power_int_add)
  finally have S_up: "S < 100000" by simp
  with near have "(of_nat d0 :: rat) < 100000 + 1" by linarith
  then have "(of_nat d0 :: rat) < of_nat (100000 + 1)" by simp
  then have "d0 < 100000 + 1" by (simp only: of_nat_less_iff)
  then have d0_up: "d0 \<le> 100000" by simp
  have "(10::rat) powi 4 = 10 powi L * 10 powi (- (L - 4))" by (simp flip: power_int_add)
  also have "\<dots> \<le> S" unfolding S_def using lo p by (simp only: mult_le_cancel_right_pos)
  finally have "(10000::rat) \<le> S" by simp
  with near have "(10000::rat) < of_nat d0 + 1" by linarith
  then have "(of_nat 10000 :: rat) < of_nat (d0 + 1)" by simp
  then have "10000 < d0 + 1" by (simp only: of_nat_less_iff)
  then have d0_lo: "10000 \<le> d0" by simp
  have err0: "\<bar>of_nat d0 * 10 powi (L - 4) - Q\<bar> \<le> 10 powi (L - 4) / 2"
  proof -
    have "of_nat d0 * 10 powi (L - 4) - Q = 10 powi (L - 4) * (of_nat d0 - S)"
      by (simp add: S_def algebra_simps flip: power_int_add)
    then have "\<bar>of_nat d0 * 10 powi (L - 4) - Q\<bar> = 10 powi (L - 4) * \<bar>of_nat d0 - S\<bar>"
      by (simp add: abs_mult)
    also have "\<dots> \<le> 10 powi (L - 4) * (1 / 2)"
      using near by (intro mult_left_mono) simp_all
    finally show ?thesis by simp
  qed
  show ?thesis
  proof (cases "d0 = 100000")
    case True
    with u r have d: "d = 10000" and x: "x = L + 1" by simp_all
    have "(of_nat d :: rat) * 10 powi (x - 4) = of_nat d0 * 10 powi (L - 4)"
      by (simp add: d x True power_int_diff power_int_add)
    moreover have "(10::rat) powi (L - 4) / 2 \<le> 10 powi (x - 4) / 2"
      by (simp add: x power_int_diff power_int_add)
    ultimately have "\<bar>of_nat d * 10 powi (x - 4) - Q\<bar> \<le> 10 powi (x - 4) / 2"
      using err0 by simp
    with d show ?thesis by (simp add: Q_def)
  next
    case False
    with u r have d: "d = d0" and x: "x = L" by simp_all
    with False d0_up d0_lo err0 show ?thesis by (simp add: Q_def)
  qed
qed

subsection \<open>The time string\<close>

text \<open>
  Claim C1. A duration from zero up to \<^verbatim>\<open>.000001\<close> is printed as its product with
  \<open>1000000000\<close>, converted by \<^verbatim>\<open>%.5g\<close> (five significant digits), followed by \<open>ns\<close>; from
  \<^verbatim>\<open>.000001\<close> up to \<^verbatim>\<open>.001\<close> as its product with \<open>1000000\<close>, followed by \<open>us\<close>; from
  \<^verbatim>\<open>.001\<close> up to \<open>1\<close> as its product with \<open>1000\<close>, followed by \<open>ms\<close>; from \<open>1\<close> on as
  it is, followed by \<open>s\<close>. Each lower bound is included and each upper bound is not.
  (That the conversion keeps five significant digits is \<open>sig5_nearest\<close>.)
\<close>

theorem make_time_str_units:
  "(dle lit_0 d \<and> dlt d lit_000001 \<longrightarrow>
      make_time_str d = snprintf_g5 50 (dmul d lit_1000000000) @ '' ns'') \<and>
   (dle lit_000001 d \<and> dlt d lit_001 \<longrightarrow>
      make_time_str d = snprintf_g5 50 (dmul d lit_1000000) @ '' us'') \<and>
   (dle lit_001 d \<and> dlt d lit_1 \<longrightarrow>
      make_time_str d = snprintf_g5 50 (dmul d lit_1000) @ '' ms'') \<and>
   (dle lit_1 d \<longrightarrow>
      make_time_str d = snprintf_g5 50 d @ '' s'')"
proof (intro conjI impI)
  assume "dle lit_0 d \<and> dlt d lit_000001"
  then show "make_time_str d = snprintf_g5 50 (dmul d lit_1000000000) @ '' ns''"
    by (simp add: make_time_str_def print_it_def)
next
  assume "dle lit_000001 d \<and> dlt d lit_001"
  then show "make_time_str d = snprintf_g5 50 (dmul d lit_1000000) @ '' us''"
    by (auto simp add: make_time_str_def print_it_def dest: dle_not_dlt)
next
  assume h: "dle lit_001 d \<and> dlt d lit_1"
  then have "\<not> dlt d lit_000001" by (simp add: not_below_000001)
  moreover from h have "\<not> dlt d lit_001" by (auto dest: dle_not_dlt)
  ultimately show "make_time_str d = snprintf_g5 50 (dmul d lit_1000) @ '' ms''"
    using h by (simp add: make_time_str_def print_it_def)
next
  assume h: "dle lit_1 d"
  then have "\<not> dlt d lit_000001" by (simp add: not_below_000001)
  moreover from h have "\<not> dlt d lit_001" by (rule not_below_001)
  moreover from h have "\<not> dlt d lit_1" by (rule dle_not_dlt)
  ultimately show "make_time_str d = snprintf_g5 50 d @ '' s''"
    by (simp add: make_time_str_def print_it_def)
qed


text \<open>
  The four cases at \<open>5e-7\<close>, \<open>2.5e-5\<close>, a third and \<open>123456.789\<close> seconds.
\<close>

theorem make_time_str_units_witness:
  "dle lit_0 (round_quot False 5 10000000) \<and> dlt (round_quot False 5 10000000) lit_000001 \<and>
     make_time_str (round_quot False 5 10000000) = ''500 ns'' \<and>
   dle lit_000001 (round_quot False 25 1000000) \<and> dlt (round_quot False 25 1000000) lit_001 \<and>
     make_time_str (round_quot False 25 1000000) = ''25 us'' \<and>
   dle lit_001 (round_quot False 1 3) \<and> dlt (round_quot False 1 3) lit_1 \<and>
     make_time_str (round_quot False 1 3) = ''333.33 ms'' \<and>
   dle lit_1 (round_quot False 123456789 1000) \<and>
     make_time_str (round_quot False 123456789 1000) = ''1.2346e+05 s''"
proof -
  let ?a = "round_quot False 5 10000000" and ?b = "round_quot False 25 1000000"
  let ?c = "round_quot False 1 3" and ?d = "round_quot False 123456789 1000"
  have ha: "dle lit_0 ?a \<and> dlt ?a lit_000001"
    by (simp add: round_eval lit_eval order_eval)
  have va: "snprintf_g5 50 (dmul ?a lit_1000000000) @ '' ns'' = ''500 ns''"
    by (simp add: round_eval lit_eval format_eval)
  have hb: "dle lit_000001 ?b \<and> dlt ?b lit_001"
    by (simp add: round_eval lit_eval order_eval)
  have vb: "snprintf_g5 50 (dmul ?b lit_1000000) @ '' us'' = ''25 us''"
    by (simp add: round_eval lit_eval format_eval)
  have hc: "dle lit_001 ?c \<and> dlt ?c lit_1"
    by (simp add: round_eval lit_eval order_eval)
  have vc: "snprintf_g5 50 (dmul ?c lit_1000) @ '' ms'' = ''333.33 ms''"
    by (simp add: round_eval lit_eval format_eval)
  have hd: "dle lit_1 ?d"
    by (simp add: round_eval lit_eval order_eval)
  have vd: "snprintf_g5 50 ?d @ '' s'' = ''1.2346e+05 s''"
    by (simp add: round_eval lit_eval format_eval)
  from make_time_str_units [of ?a] ha va have "make_time_str ?a = ''500 ns''" by simp
  moreover from make_time_str_units [of ?b] hb vb have "make_time_str ?b = ''25 us''" by simp
  moreover from make_time_str_units [of ?c] hc vc have "make_time_str ?c = ''333.33 ms''" by simp
  moreover from make_time_str_units [of ?d] hd vd have "make_time_str ?d = ''1.2346e+05 s''" by simp
  ultimately show ?thesis using ha hb hc hd by simp
qed

text \<open>
  Claim C2. At the thresholds themselves the larger unit is taken, since each test is a
  strict \<^verbatim>\<open><\<close>: \<^verbatim>\<open>.000001\<close> seconds is printed in microseconds, \<^verbatim>\<open>.001\<close> seconds in
  milliseconds and one second in seconds.
\<close>

theorem make_time_str_boundaries:
  "make_time_str lit_000001 = snprintf_g5 50 (dmul lit_000001 lit_1000000) @ '' us'' \<and>
   make_time_str lit_000001 = ''1 us'' \<and>
   make_time_str lit_001 = snprintf_g5 50 (dmul lit_001 lit_1000) @ '' ms'' \<and>
   make_time_str lit_001 = ''1 ms'' \<and>
   make_time_str lit_1 = snprintf_g5 50 lit_1 @ '' s'' \<and>
   make_time_str lit_1 = ''1 s''"
proof -
  have a: "make_time_str lit_000001 = snprintf_g5 50 (dmul lit_000001 lit_1000000) @ '' us''"
    by (simp add: make_time_str_def print_it_def lit_eval order_eval)
  have a': "snprintf_g5 50 (dmul lit_000001 lit_1000000) @ '' us'' = ''1 us''"
    by (simp add: lit_eval round_eval format_eval)
  have b: "make_time_str lit_001 = snprintf_g5 50 (dmul lit_001 lit_1000) @ '' ms''"
    by (simp add: make_time_str_def print_it_def lit_eval order_eval)
  have b': "snprintf_g5 50 (dmul lit_001 lit_1000) @ '' ms'' = ''1 ms''"
    by (simp add: lit_eval round_eval format_eval)
  have c: "make_time_str lit_1 = snprintf_g5 50 lit_1 @ '' s''"
    by (simp add: make_time_str_def print_it_def lit_eval order_eval)
  have c': "snprintf_g5 50 lit_1 @ '' s'' = ''1 s''"
    by (simp add: lit_eval round_eval format_eval)
  from a a' b b' c c' show ?thesis by simp
qed

text \<open>
  Claim C10. Every duration below \<^verbatim>\<open>.000001\<close>, the negative ones included, goes through
  the first branch: it is multiplied by \<open>1000000000\<close> and printed with \<open>ns\<close>. Nothing is
  rejected or clamped; the function is defined on every value of the type.
\<close>

theorem make_time_str_below_000001:
  "dlt d lit_000001 \<Longrightarrow> make_time_str d = snprintf_g5 50 (dmul d lit_1000000000) @ '' ns''"
  by (simp add: make_time_str_def print_it_def)

text \<open>
  Minus one second is printed as a negative number of nanoseconds.
\<close>

theorem make_time_str_below_000001_witness:
  "dlt (double_of_int (- 1)) lit_000001 \<and> make_time_str (double_of_int (- 1)) = ''-1e+09 ns''"
proof -
  have h: "dlt (double_of_int (- 1)) lit_000001"
    by (simp add: round_eval lit_eval order_eval)
  have v: "snprintf_g5 50 (dmul (double_of_int (- 1)) lit_1000000000) @ '' ns'' = ''-1e+09 ns''"
    by (simp add: round_eval lit_eval format_eval)
  from make_time_str_below_000001 [OF h] v h show ?thesis by simp
qed

text \<open>Two and a half seconds, in any representation, are printed as \<open>2.5 s\<close>.\<close>

lemma numer_denom: "(of_nat (numer m e) / of_nat (denom e) :: rat) = of_nat m * 2 powi e"
  by (cases "e = 0") (auto simp add: numer_def denom_def power_int_def field_simps)

lemma sig5_two_and_a_half:
  assumes a: "0 < a" and c: "0 < c" and q: "(of_nat a / of_nat c :: rat) = 5 / 2"
  shows "sig5 a c = (25000, 0)"
proof -
  obtain d x where r: "sig5 a c = (d, x)" by (cases "sig5 a c")
  define u :: rat where "u = 10 powi (x - 4)"
  from sig5_nearest [OF a c r] q
  have d1: "10000 \<le> d" and d2: "d \<le> 99999" and err: "\<bar>of_nat d * u - 5 / 2\<bar> \<le> u / 2"
    by (simp_all add: u_def)
  have u: "0 < u" by (simp add: u_def)
  from d1 have "(of_nat 10000 :: rat) \<le> of_nat d" by (simp only: of_nat_le_iff)
  then have D1: "(10000 :: rat) \<le> of_nat d" by simp
  from d2 have "(of_nat d :: rat) \<le> of_nat 99999" by (simp only: of_nat_le_iff)
  then have D2: "(of_nat d :: rat) \<le> 99999" by simp
  have x0: "x = 0"
  proof (rule ccontr)
    assume "x \<noteq> 0"
    then consider "1 \<le> x" | "x \<le> - 1" by linarith
    then show False
    proof cases
      case 1
      have "(10::rat) powi (- 3) \<le> 10 powi (x - 4)"
        using 1 by (intro power_int_increasing) simp_all
      then have "1 / 1000 \<le> u" by (simp add: u_def power_int_minus)
      moreover have "10000 * u \<le> of_nat d * u" using D1 u by simp
      ultimately show False using err by linarith
    next
      case 2
      have "(10::rat) powi (x - 4) \<le> 10 powi (- 5)"
        using 2 by (intro power_int_increasing) simp_all
      then have "u \<le> 1 / 100000" by (simp add: u_def power_int_minus)
      moreover have "of_nat d * u \<le> 99999 * u" using D2 u by simp
      ultimately show False using err by linarith
    qed
  qed
  then have "u = 1 / 10000" by (simp add: u_def power_int_minus)
  with err have "\<bar>(of_nat d :: rat) - 25000\<bar> \<le> 1 / 2" by (simp add: field_simps)
  then have "(of_nat d :: rat) < 25001" and "(24999 :: rat) < of_nat d" by linarith+
  then have "(of_nat d :: rat) < of_nat 25001" and "(of_nat 24999 :: rat) < of_nat d" by simp_all
  then have "d < 25001" and "24999 < d" by (simp_all only: of_nat_less_iff)
  then have "d = 25000" by simp
  with r x0 show ?thesis by simp
qed

lemma valof_lits:
  "valof False 4722366482869645 (- 72) < 5 / 2"
  "valof False 4611686018427388 (- 62) < 5 / 2"
  "valof False 4503599627370496 (- 52) < 5 / 2"
  "valof False 5629499534213120 (- 51) = 5 / 2"
  by (simp_all add: valof_def sval_def power_int_minus)

lemma make_time_str_two_and_a_half:
  assumes "deq x (round_quot False 5 2)"
  shows "make_time_str x = ''2.5 s''"
proof -
  have c: "round_quot False 5 2 = Finite False 5629499534213120 (- 51)"
    by (simp add: round_eval)
  from assms obtain s m e where x: "x = Finite s m e"
    by (cases x) (auto simp add: deq_def c)
  from assms have "dle (Finite s m e) (Finite False 5629499534213120 (- 51))"
    and "dle (Finite False 5629499534213120 (- 51)) (Finite s m e)"
    unfolding deq_def c x by blast+
  then have "valof s m e \<le> 5 / 2" and "5 / 2 \<le> valof s m e"
    by (simp_all only: dle_valof valof_lits)
  then have v: "valof s m e = 5 / 2" by simp
  have "(0::rat) < of_int (sval s m) * 2 powi e" using v by (simp add: valof_def)
  moreover have "\<not> (2::rat) powi e < 0" by (simp add: not_less)
  ultimately have "0 < sval s m" by (simp add: zero_less_mult_iff)
  then have s: "\<not> s" and m: "0 < m"
    by (simp_all add: sval_def split: if_splits)
  from v s have q: "(of_nat (numer m e) / of_nat (denom e) :: rat) = 5 / 2"
    by (simp add: numer_denom valof_def sval_def)
  have "0 < numer m e" "0 < denom e" using m by (simp_all add: numer_def denom_def)
  then have g: "sig5 (numer m e) (denom e) = (25000, 0)" using q by (rule sig5_two_and_a_half)
  have b: "\<not> dlt x lit_000001" "\<not> dlt x lit_001" "\<not> dlt x lit_1"
    unfolding x lit_eval dlt_valof v using valof_lits by simp_all
  have "format_g5 x = ''2.5''"
    using m s by (simp add: x g g5_digits_def digits5_def digit_char_def with_fraction_def
        strip_zeros_def sign_str_def)
  with b show ?thesis by (simp add: make_time_str_def print_it_def snprintf_g5_def)
qed

subsection \<open>Durations below a second on the nanosecond clock\<close>

lemma ndigits_le: "n < b ^ k \<Longrightarrow> ndigits b n \<le> k"
proof (induction k arbitrary: n)
  case 0
  then show ?case by simp
next
  case (Suc k)
  show ?case
  proof (cases "n = 0 \<or> b < 2")
    case True
    then show ?thesis by (auto simp add: ndigits.simps [of b n])
  next
    case False
    then have b: "0 < b" by simp
    from Suc.prems have "n < b ^ k * b" by (simp add: mult.commute)
    then have "n div b < b ^ k" using b by (simp add: less_mult_imp_div_less)
    then have "ndigits b (n div b) \<le> k" by (rule Suc.IH)
    with False show ?thesis by (simp add: ndigits.simps [of b n])
  qed
qed

lemma ndigits_mono: "a \<le> c \<Longrightarrow> ndigits b a \<le> ndigits b c"
proof (induction b c arbitrary: a rule: ndigits.induct)
  case (1 b c)
  show ?case
  proof (cases "a = 0 \<or> b < 2")
    case True
    then show ?thesis by (auto simp add: ndigits.simps [of b a])
  next
    case False
    with "1.prems" have c: "\<not> (c = 0 \<or> b < 2)" by auto
    from "1.prems" have "a div b \<le> c div b" by (rule div_le_mono)
    with "1.IH" [OF c] have "ndigits b (a div b) \<le> ndigits b (c div b)" .
    with False c show ?thesis
      by (simp add: ndigits.simps [of b a] ndigits.simps [of b c])
  qed
qed

lemma round_half_even_le: "0 < b \<Longrightarrow> round_half_even a b * b \<le> 2 * a"
proof -
  assume b: "0 < b"
  define q r where "q = a div b" and "r = a mod b"
  have a: "a = q * b + r" by (simp add: q_def r_def)
  have q: "q * b \<le> 2 * a" using a by simp
  have "b \<le> 2 * r \<Longrightarrow> (q + 1) * b \<le> 2 * a" using a by (simp add: algebra_simps)
  with q show ?thesis
    unfolding round_half_even_def Let_def q_def [symmetric] r_def [symmetric] by auto
qed

lemma round_half_even_1: "round_half_even a (Suc 0) = a"
  by (simp add: round_half_even_def)


lemma below_one:
  assumes e: "e < 0" and m: "m < 2 ^ nat (- e)"
  shows "dlt (Finite False m e) lit_1"
proof -
  from m have im: "int m < 2 ^ nat (- e)"
    by (metis of_nat_less_iff of_nat_numeral of_nat_power)
  show ?thesis
  proof (cases "e \<le> - 52")
    case True
    then have "nat (- e) = 52 + nat (- 52 - e)" by simp
    then have "(2::int) ^ nat (- e) = 2 ^ 52 * 2 ^ nat (- 52 - e)" by (simp only: power_add)
    with im True show ?thesis by (simp add: lit_1_eq scaled_def sval_def min_def)
  next
    case False
    with e have "52 = nat (- e) + nat (e + 52)" by simp
    then have p: "(2::int) ^ 52 = 2 ^ nat (- e) * 2 ^ nat (e + 52)" by (simp only: power_add)
    from im have "int m * 2 ^ nat (e + 52) < 2 ^ nat (- e) * 2 ^ nat (e + 52)" by simp
    with p False show ?thesis by (simp add: lit_1_eq scaled_def sval_def min_def)
  qed
qed

lemma ilog_le: "a \<le> c \<Longrightarrow> ilog b a c \<le> 0"
  using ndigits_mono [of a c b] by (simp add: ilog_def Let_def)

lemma round_quot_small:
  assumes c: "0 < c" and ac: "2 * a < c"
  shows "dlt (round_quot False a c) lit_1"
proof (cases "a = 0")
  case True
  then show ?thesis by (simp add: round_quot_def lit_1_eq scaled_def sval_def)
next
  case False
  define e where "e = max (ilog 2 a c - 52) (- 1074)"
  define m where "m = round_half_even (a * 2 ^ nat (- e)) c"
  from ac have "ilog 2 a c \<le> 0" by (intro ilog_le) simp
  then have e: "e \<le> - 52" by (simp add: e_def)
  have "m * c \<le> 2 * (a * 2 ^ nat (- e))" unfolding m_def using c by (rule round_half_even_le)
  also have "\<dots> = (2 * a) * 2 ^ nat (- e)" by simp
  also have "\<dots> < c * 2 ^ nat (- e)" using ac by simp
  finally have "m * c < 2 ^ nat (- e) * c" by (simp add: mult.commute)
  then have m: "m < 2 ^ nat (- e)" by simp
  have r: "round_quot False a c =
      (if m = 2 ^ 53 then Finite False (2 ^ 52) (e + 1) else Finite False m e)"
    using False e by (simp add: round_quot_def Let_def e_def [symmetric] m_def [symmetric])
  show ?thesis
  proof (cases "m = 2 ^ 53")
    case True
    from e have "nat (- e) = Suc (nat (- (e + 1)))" by simp
    then have "(2::nat) ^ nat (- e) = 2 * 2 ^ nat (- (e + 1))" by (simp only: power_Suc)
    with m True have "(2::nat) ^ 52 < 2 ^ nat (- (e + 1))" by simp
    with e True r show ?thesis by (simp add: below_one)
  next
    case False
    with e m r show ?thesis by (simp add: below_one)
  qed
qed


lemma ilog_le_digits: "ilog b a c \<le> int (ndigits b a) - int (ndigits b c)"
  by (simp add: ilog_def Let_def)

lemma round_quot_nat_exact:
  assumes d: "d < 2 ^ 53"
  shows "\<exists>m e. round_quot False d 1 = Finite False m e \<and> e \<le> 0 \<and> m = d * 2 ^ nat (- e)"
proof (cases "d = 0")
  case True
  then show ?thesis by (simp add: round_quot_def)
next
  case False
  define e where "e = max (ilog 2 d 1 - 52) (- 1074)"
  define m where "m = d * 2 ^ nat (- e)"
  from d have "ndigits 2 d \<le> 53" by (rule ndigits_le)
  with ilog_le_digits [of 2 d 1] have "ilog 2 d 1 \<le> 52" by simp
  then have e: "e \<le> 0" by (simp add: e_def)
  have m0: "m = (if 0 \<le> e then round_half_even d (1 * 2 ^ nat e)
             else round_half_even (d * 2 ^ nat (- e)) 1)"
    using e by (auto simp add: m_def round_half_even_1)
  note r = round_quot_unfold [OF False e_def m0, of False]
  show ?thesis
  proof (cases "m = 2 ^ 53")
    case True
    with d have "e \<noteq> 0" by (auto simp add: m_def)
    with e have e': "e < 0" by simp
    then have "nat (- e) = Suc (nat (- (e + 1)))" by simp
    then have "(2::nat) ^ nat (- e) = 2 * 2 ^ nat (- (e + 1))" by (simp only: power_Suc)
    with True have "(2::nat) ^ 52 = d * 2 ^ nat (- (e + 1))" by (simp add: m_def)
    with True r e' show ?thesis by simp
  next
    case False
    with r e show ?thesis by (simp add: m_def)
  qed
qed

lemma ns_clock_now: "clock_now ns_clock w = (w, w)"
  by (simp add: ns_clock_def)

lemma ns_clock_count: "duration_count ns_clock d = ddiv (double_of_int d) lit_1000000000"
  by (simp add: ns_clock_def)

lemma ns_clock_below_second:
  assumes "0 \<le> i" and "i < 500000000"
  shows "dlt (duration_count ns_clock i) lit_1"
proof -
  define d where "d = nat i"
  from assms have d: "d < 500000000" by (simp add: d_def)
  then have "d < 2 ^ 53" by simp
  from round_quot_nat_exact [OF this] obtain m e where
    x: "round_quot False d 1 = Finite False m e" and e: "e \<le> 0" and m: "m = d * 2 ^ nat (- e)"
    by blast
  have n: "numer m e = m" using e by (auto simp add: numer_def)
  have dn: "denom e = 2 ^ nat (- e)" using e by (auto simp add: denom_def)
  have "ddiv (Finite False m e) lit_1000000000 =
          round_quot False (m * 8388608) (2 ^ nat (- e) * 8388608000000000)"
    by (simp add: lit_1000000000_eq n dn) (simp add: numer_def denom_def)
  moreover have "dlt (round_quot False (m * 8388608) (2 ^ nat (- e) * 8388608000000000)) lit_1"
  proof (rule round_quot_small)
    show "0 < (2::nat) ^ nat (- e) * 8388608000000000" by simp
    have "2 * (m * 8388608) = 2 ^ nat (- e) * (8388608 * (2 * d))" by (simp add: m)
    also have "\<dots> < 2 ^ nat (- e) * (8388608 * 1000000000)" using d by simp
    finally show "2 * (m * 8388608) < 2 ^ nat (- e) * 8388608000000000" by simp
  qed
  ultimately show ?thesis
    using assms x by (simp add: ns_clock_count double_of_int_def d_def)
qed

subsection \<open>The loop of \<^verbatim>\<open>time_it\<close>\<close>

lemma loop_done_count:
  "time_it_loop C f tt st n w c = Loop_done n' tot w' c' \<Longrightarrow>
     c' = c + (n' - n) \<and> n < n' \<and> (n \<le> 100 \<longrightarrow> n' \<le> 101) \<and>
     (\<exists>w1 stop. clock_now C w1 = (stop, w') \<and> tot = duration_count C (stop - st))"
proof (induction C f tt st n w c rule: time_it_loop.induct)
  case (1 C f tt st n w c)
  show ?case
  proof (cases "f w")
    case (Throws w1)
    with "1.prems" show ?thesis by (simp add: time_it_loop.simps [of C f tt st n w c])
  next
    case (Returns w1)
    obtain stop w2 where cn: "clock_now C w1 = (stop, w2)" by (cases "clock_now C w1")
    show ?thesis
    proof (cases "n < 100 \<and> dlt (duration_count C (stop - st)) tt")
      case True
      with "1.prems" Returns cn
      have "time_it_loop C f tt st (n + 1) w2 (c + 1) = Loop_done n' tot w' c'"
        by (simp add: time_it_loop.simps [of C f tt st n w c])
      from "1.IH" [OF Returns cn [symmetric] refl True this] True
      show ?thesis by auto
    next
      case False
      with "1.prems" Returns cn show ?thesis
        by (auto simp add: time_it_loop.simps [of C f tt st n w c])
    qed
  qed
qed

lemma loop_thrown_count:
  "time_it_loop C f tt st n w c = Loop_thrown w' c' \<Longrightarrow>
     c < c' \<and> (n \<le> 100 \<longrightarrow> c' \<le> c + (101 - n))"
proof (induction C f tt st n w c rule: time_it_loop.induct)
  case (1 C f tt st n w c)
  show ?case
  proof (cases "f w")
    case (Throws w1)
    with "1.prems" show ?thesis by (auto simp add: time_it_loop.simps [of C f tt st n w c])
  next
    case (Returns w1)
    obtain stop w2 where cn: "clock_now C w1 = (stop, w2)" by (cases "clock_now C w1")
    show ?thesis
    proof (cases "n < 100 \<and> dlt (duration_count C (stop - st)) tt")
      case True
      with "1.prems" Returns cn
      have "time_it_loop C f tt st (n + 1) w2 (c + 1) = Loop_thrown w' c'"
        by (simp add: time_it_loop.simps [of C f tt st n w c])
      from "1.IH" [OF Returns cn [symmetric] refl True this] True
      show ?thesis by auto
    next
      case False
      with "1.prems" Returns cn show ?thesis
        by (auto simp add: time_it_loop.simps [of C f tt st n w c])
    qed
  qed
qed

text \<open>
  On the nanosecond clock, an operation of \<open>k\<close> ticks whose 101 calls end less than half a
  second after the start is called until the count stops the loop.
\<close>

lemma loop_takes:
  assumes k: "0 \<le> k"
  shows "n \<le> 100 \<Longrightarrow> st \<le> w \<Longrightarrow> w - st + (101 - int n) * k < 500000000 \<Longrightarrow>
    time_it_loop ns_clock (takes k) lit_1 st n w c =
      Loop_done 101 (duration_count ns_clock (w + (101 - int n) * k - st))
        (w + (101 - int n) * k) (c + (101 - n))"
proof (induction "100 - n" arbitrary: n w c)
  case 0
  then have "n = 100" by simp
  then show ?case
    by (subst time_it_loop.simps) (simp add: takes_def ns_clock_now)
next
  case (Suc j)
  then have n: "n < 100" by simp
  have "0 \<le> (100 - int n) * k" using k n by simp
  moreover have "w - st + (101 - int n) * k = w + k - st + (100 - int n) * k"
    by (simp add: algebra_simps)
  ultimately have b: "w + k - st < 500000000" and b': "w + k - st + (101 - int (n + 1)) * k < 500000000"
    using Suc.prems(3) by simp_all
  from Suc.prems(2) k have st: "st \<le> w + k" and nn: "0 \<le> w + k - st" by simp_all
  from nn b have lt: "dlt (duration_count ns_clock (w + k - st)) lit_1"
    by (rule ns_clock_below_second)
  from Suc.hyps(2) n have "j = 100 - (n + 1)" "n + 1 \<le> 100" by simp_all
  from Suc.hyps(1) [OF this st b', of "c + 1"]
  have "time_it_loop ns_clock (takes k) lit_1 st (n + 1) (w + k) (c + 1) =
      Loop_done 101 (duration_count ns_clock (w + (101 - int n) * k - st))
        (w + (101 - int n) * k) (c + (101 - n))"
    using n by (simp add: algebra_simps)
  with lt n show ?case
    by (subst time_it_loop.simps) (simp add: takes_def ns_clock_now)
qed

lemma time_it_cases:
  obtains (returned) t0 w0 n tot w' k where
      "clock_now C w = (t0, w0)"
      "time_it_loop C f tt t0 0 w0 0 = Loop_done n tot w' k"
      "time_it C t f tt w =
         \<lparr>result = Some (make_time_str (ddiv tot (double_of_nat n)) @ '' for '' @ to_string_nat n @ '' tries''),
          self = t, world = w', invocations = k\<rparr>"
  | (thrown) t0 w0 w' k where
      "clock_now C w = (t0, w0)"
      "time_it_loop C f tt t0 0 w0 0 = Loop_thrown w' k"
      "time_it C t f tt w = \<lparr>result = None, self = t\<lparr>start' := t0\<rparr>, world = w', invocations = k\<rparr>"
proof -
  obtain t0 w0 where cn: "clock_now C w = (t0, w0)" by (cases "clock_now C w")
  show thesis
  proof (cases "time_it_loop C f tt t0 0 w0 0")
    case (Loop_done n tot w' k)
    with cn show thesis by (intro returned [of t0 w0 n tot w' k]) (simp_all add: time_it_def)
  next
    case (Loop_thrown w' k)
    with cn show thesis by (intro thrown [of t0 w0 w' k]) (simp_all add: time_it_def)
  qed
qed

lemma invocations_le_101: "invocations (time_it C t f tt w) \<le> 101"
proof (cases rule: time_it_cases [of C w f tt t])
  case (returned t0 w0 n tot w' k)
  with loop_done_count [OF returned(2)] show ?thesis by simp
next
  case (thrown t0 w0 w' k)
  with loop_thrown_count [OF thrown(2)] show ?thesis by simp
qed

text \<open>
  Claim C3. The count of the calls is not bounded by 100: the test \<^verbatim>\<open>n++ < 100\<close> of the
  \<^verbatim>\<open>do\<close> loop looks at the value of \<^verbatim>\<open>n\<close> before the increment, so the round that ends
  the loop on the count is the one entered with \<^verbatim>\<open>n = 100\<close>, the 101st. Here an operation
  of one millisecond is timed against the default target of one second: it is called
  101 times, and the string says so. (\<open>invocations_le_101\<close> is the bound that holds.)
\<close>

theorem time_it_hundred_and_one:
  "invocations (time_it ns_clock example_timer (takes 1000000) lit_1 0) = 101 \<and>
   result (time_it ns_clock example_timer (takes 1000000) lit_1 0)
     = Some ''1 ms for 101 tries''"
proof -
  have "time_it_loop ns_clock (takes 1000000) lit_1 0 0 0 0 =
      Loop_done 101 (duration_count ns_clock (0 + (101 - int 0) * 1000000 - 0))
        (0 + (101 - int 0) * 1000000) (0 + (101 - 0))"
    by (rule loop_takes) simp_all
  then have l: "time_it_loop ns_clock (takes 1000000) lit_1 0 0 0 0 =
      Loop_done 101 (duration_count ns_clock 101000000) 101000000 101"
    by simp
  have v: "make_time_str (ddiv (duration_count ns_clock 101000000) (double_of_nat 101)) = ''1 ms''"
    by (simp add: ns_clock_count make_time_str_def round_eval lit_eval order_eval format_eval)
  show ?thesis
    by (simp add: time_it_def ns_clock_now example_timer_def l v Let_def digit_char_def)
qed


subsection \<open>The timer as an object\<close>

text \<open>
  A run for the examples: an operation of twenty milliseconds against a target of three
  hundredths of a second is called twice.
\<close>

lemma time_it_example:
  "time_it ns_clock example_timer (takes 20000000) (round_quot False 3 100) 5 =
     \<lparr>result = Some ''20 ms for 2 tries'', self = example_timer, world = 40000005,
      invocations = 2\<rparr>"
proof -
  have l: "time_it_loop ns_clock (takes 20000000) (round_quot False 3 100) 5 0 5 0
             = Loop_done 2 (round_quot False 4 100) 40000005 2"
    by (simp add: time_it_loop.simps ns_clock_now ns_clock_count takes_def round_eval lit_eval
        order_eval)
  have v: "make_time_str (ddiv (round_quot False 4 100) (double_of_nat 2)) = ''20 ms''"
    by (simp add: make_time_str_def round_eval lit_eval order_eval format_eval)
  show ?thesis
    by (simp add: time_it_def ns_clock_now l v example_timer_def Let_def digit_char_def)
qed

lemma call_time_it_returned:
  assumes "call C (Time_it f tt) t w = (r, t', w')" and "r \<noteq> An_exception"
  shows "t' = t"
proof (cases rule: time_it_cases [of C w f tt t])
  case (returned t0 w0 n tot w1 k)
  with assms show ?thesis by (simp add: Let_def)
next
  case (thrown t0 w0 w1 k)
  with assms show ?thesis by (simp add: Let_def)
qed

text \<open>
  Claim C5. Whatever member function is called, when the call returns the timer has the
  \<open>start'\<close> it had before, and a later \<^verbatim>\<open>to_string\<close> gives what it would have given on
  the timer as it was: \<^verbatim>\<open>time_it\<close> writes the old value back before it returns, and the
  other member functions do not write.
\<close>

theorem start_kept:
  "call C m t w = (r, t', w') \<Longrightarrow> r \<noteq> An_exception \<Longrightarrow>
     start' t' = start' t \<and> to_string C t' w'' = to_string C t w''"
proof -
  assume c: "call C m t w = (r, t', w')" and r: "r \<noteq> An_exception"
  have "t' = t"
  proof (cases m)
    case (Time_it f tt)
    from c have "call C (Time_it f tt) t w = (r, t', w')" unfolding Time_it .
    then show ?thesis using r by (rule call_time_it_returned)
  qed (use c in \<open>auto split: prod.splits\<close>)
  then show ?thesis by simp
qed

text \<open>
  A call of \<^verbatim>\<open>time_it\<close> that returns, and a \<^verbatim>\<open>to_string\<close> two and a half seconds after
  the start.
\<close>

theorem start_kept_witness:
  "call ns_clock (Time_it (takes 20000000) (round_quot False 3 100) :: (int, string) member)
        example_timer 5
     = (A_string ''20 ms for 2 tries'', example_timer, 40000005) \<and>
   A_string ''20 ms for 2 tries'' \<noteq> (An_exception :: string returned) \<and>
   start' example_timer = 0 \<and>
   fst (to_string ns_clock example_timer 2500000000) = ''X: 2.5 s''"
proof -
  have c: "call ns_clock (Time_it (takes 20000000) (round_quot False 3 100) :: (int, string) member)
        example_timer 5
     = (A_string ''20 ms for 2 tries'', example_timer, 40000005)"
    by (simp add: time_it_example)
  have r: "A_string ''20 ms for 2 tries'' \<noteq> (An_exception :: string returned)" by simp
  have s: "start' example_timer = 0" by (simp add: example_timer_def)
  have v: "make_time_str (ddiv (double_of_int 2500000000) lit_1000000000) = ''2.5 s''"
    by (simp add: make_time_str_def round_eval lit_eval order_eval format_eval)
  have t: "fst (to_string ns_clock example_timer 2500000000) = ''X: 2.5 s''"
    by (simp add: to_string_def make_time_str_now_def ns_clock_now ns_clock_count
        example_timer_def v Simple_def)
  from start_kept [OF c r, of 2500000000] c r s t show ?thesis by simp
qed

text \<open>
  The value is written back on return only: when an exception of the operation goes
  through \<^verbatim>\<open>time_it\<close>, the timer keeps the start that the call gave it.
\<close>

lemma time_it_thrown_start:
  assumes "clock_now C w = (t0, w0)" and "result (time_it C t f tt w) = None"
  shows "start' (self (time_it C t f tt w)) = t0"
proof (cases rule: time_it_cases [of C w f tt t])
  case (returned t0 w0 n tot w1 k)
  with assms show ?thesis by simp
next
  case (thrown t0 w0 w1 k)
  with assms show ?thesis by simp
qed

text \<open>
  Claim C6. The string that \<^verbatim>\<open>time_it\<close> returns is the time string of the quotient of
  the time measured at the last reading of the clock, counted from the reading at the
  beginning of the call, by the number of calls of the operation, followed by
  \<open>for\<close>, that number in decimal, and \<open>tries\<close>.
\<close>

theorem time_it_string:
  "result (time_it C t f target_time w) = Some out \<Longrightarrow>
     \<exists>stop w1. clock_now C w1 = (stop, world (time_it C t f target_time w)) \<and>
       out = make_time_str
               (ddiv (duration_count C (stop - fst (clock_now C w)))
                     (double_of_nat (invocations (time_it C t f target_time w))))
             @ '' for '' @ to_string_nat (invocations (time_it C t f target_time w)) @ '' tries''"
proof (cases rule: time_it_cases [of C w f target_time t])
  case (returned t0 w0 n tot w' k)
  assume "result (time_it C t f target_time w) = Some out"
  with returned(3)
  have out: "out = make_time_str (ddiv tot (double_of_nat n)) @ '' for '' @ to_string_nat n @ '' tries''"
    by simp
  from loop_done_count [OF returned(2)] obtain w1 stop where
    "k = n" "clock_now C w1 = (stop, w')" "tot = duration_count C (stop - t0)"
    by auto
  with out returned(1,3) show ?thesis by auto
next
  case (thrown t0 w0 w' k)
  assume "result (time_it C t f target_time w) = Some out"
  with thrown(3) show ?thesis by simp
qed

text \<open>
  Two calls of an operation of twenty milliseconds, against a target of three hundredths
  of a second.
\<close>

theorem time_it_string_witness:
  "result (time_it ns_clock example_timer (takes 20000000) (round_quot False 3 100) 5)
     = Some ''20 ms for 2 tries'' \<and>
   (\<exists>stop w1. clock_now ns_clock w1 = (stop, 40000005) \<and>
      ''20 ms for 2 tries'' =
        make_time_str (ddiv (duration_count ns_clock (stop - 5)) (double_of_nat 2))
        @ '' for '' @ to_string_nat 2 @ '' tries'')"
proof -
  have r: "result (time_it ns_clock example_timer (takes 20000000) (round_quot False 3 100) 5)
     = Some ''20 ms for 2 tries''"
    by (simp add: time_it_example)
  have c: "fst (clock_now ns_clock 5) = 5" by (simp add: ns_clock_now)
  from time_it_string [OF r] r show ?thesis
    by (simp only: time_it_example c simp_thms timed.simps)
qed

text \<open>
  Claim C7. Putting a timer into a stream is putting the string of \<^verbatim>\<open>to_string\<close> into it;
  a stream that keeps the characters as they come gets exactly that string.
\<close>

theorem shift_out_to_string:
  "shift_out put C os t w = (put os (fst (to_string C t w)), snd (to_string C t w)) \<and>
   fst (shift_out put_chars C os t w) = os @ fst (to_string C t w)"
  by (simp add: shift_out_def put_chars_def split: prod.splits)

text \<open>
  Claim C8. \<^verbatim>\<open>Simple\<close> joins the title and the time with a colon and a space; a timer
  with that print function and the title \<open>X\<close>, read when the time since its start is
  equal to two and a half seconds, gives \<open>X: 2.5 s\<close>.
\<close>

theorem Simple_string:
  "Simple L T = L @ '': '' @ T \<and>
   (title' t = ''X'' \<and> time_print' t = Simple \<and>
    deq (duration_count C (fst (clock_now C w) - start' t)) (round_quot False 5 2)
    \<longrightarrow> fst (to_string C t w) = ''X: 2.5 s'')"
  by (auto simp add: Simple_def to_string_def make_time_str_now_def make_time_str_two_and_a_half
      split: prod.splits)

text \<open>
  On the nanosecond clock, 2500000000 ticks after the start.
\<close>

theorem Simple_string_witness:
  "title' example_timer = ''X'' \<and> time_print' example_timer = Simple \<and>
   deq (duration_count ns_clock (fst (clock_now ns_clock 2500000000) - start' example_timer))
     (round_quot False 5 2) \<and>
   fst (to_string ns_clock example_timer 2500000000) = ''X: 2.5 s''"
proof -
  have h: "title' example_timer = ''X'' \<and> time_print' example_timer = Simple \<and>
      deq (duration_count ns_clock (fst (clock_now ns_clock 2500000000) - start' example_timer))
        (round_quot False 5 2)"
    by (simp add: example_timer_def ns_clock_now ns_clock_count deq_def round_eval lit_eval
        order_eval)
  from Simple_string [of "[]" "[]" example_timer ns_clock 2500000000] h show ?thesis
    by blast
qed

text \<open>
  Claim C9. \<^verbatim>\<open>Big\<close> gives three lines: 41 dashes, the line with the title and the time,
  and the 41 dashes again.
\<close>

theorem Big_string:
  "Big L T =
     replicate 41 (CHR ''-'') @ [CHR 0x0A] @
     (''| '' @ L @ '' | Time = '' @ T) @ [CHR 0x0A] @
     replicate 41 (CHR ''-'')"
proof -
  have "replicate 41 (CHR ''-'') = ''-----------------------------------------''"
    by (simp add: numeral_eq_Suc)
  then show ?thesis by (simp add: Big_def)
qed

end
